theory Spec2Isabelle
  imports Main "HOL-Library.AList" "HOL-Library.Sublist"
begin

section \<open>Data model\<close>

text \<open>
  The exporter of \<^verbatim>\<open>NodeXmlExporter.py\<close> talks to an OPC UA server through an
  \<^verbatim>\<open>asyncua\<close> client. A node handle carries a node id, made of a namespace index
  and an identifier; two handles are equal exactly when their node ids are, which is
  what \<^verbatim>\<open>child not in self.nodes\<close> tests.
\<close>

datatype ident = NumericId int | StringId string

record nodeid =
  NamespaceIndex :: int
  Identifier :: ident

record node =
  nodeid :: nodeid

text \<open>
  Exceptions are values: a remote call of the session that raises, the
  \<^verbatim>\<open>KeyError\<close> of a dictionary read at a missing key, and the \<^verbatim>\<open>RecursionError\<close>
  that the interpreter raises when calls are nested deeper than its recursion limit.
\<close>

datatype error = RemoteException string | KeyError int | RecursionError

text \<open>
  How a method ends: it returns, an exception leaves it, or \<^verbatim>\<open>sys.exit(arg)\<close> raises
  \<^verbatim>\<open>SystemExit\<close> with the given argument (\<open>None\<close> when called with no argument).
\<close>

datatype 'a outcome = Returned 'a | Raised error | SystemExit "int option"

text \<open>
  A record emitted by \<^verbatim>\<open>self.logger\<close>: the level, the message template and the
  values formatted into it. The logger's level is \<^verbatim>\<open>INFO\<close>, so the \<^verbatim>\<open>debug\<close> call
  of the traversal emits nothing; the progress bars are display only and are left out.
\<close>

datatype level = INFO | ERROR

datatype arg = AStr string | AInt int | ANode node | AExc error | ABool bool | AInts "int list"

datatype log_record = Log level string "arg list"

text \<open>
  The session (\<^verbatim>\<open>asyncua.Client\<close>) and the serializer (\<^verbatim>\<open>XmlExporter\<close>) are outside
  the file: each call is a parameter that tells what the call answers, \<open>Inl e\<close> or
  \<open>Some e\<close> when it raises \<open>e\<close>. The server's address space does not change during
  a run, so a call's answer depends on its arguments only. \<open>set_security\<close> stands for
  the whole block run under \<^verbatim>\<open>if security:\<close> (reading the certificate, setting
  the application URI and the security policy).

  The record also holds what the interpreter gives the run: \<open>recursion_budget\<close> is the
  number of nested calls of \<^verbatim>\<open>iterater_over_child_nodes\<close> that fit under the recursion
  limit when \<^verbatim>\<open>start_node_browse\<close> is called. The program never changes the limit
  (\<^verbatim>\<open>sys.getrecursionlimit()\<close>, 1000 by default), and the frames of the event loop, of
  the callers and of the calls made inside a visit count against it, so the budget is
  below 1000.
\<close>

record session =
  set_security :: "error option"
  connect :: "error option"
  get_namespace_array :: "error + string list"
  get_namespace_index :: "string \<Rightarrow> error + int"
  get_root_node :: node
  get_children :: "node \<Rightarrow> error + node list"
  read_node_class :: "node \<Rightarrow> error + string"
  disconnect :: "error option"
  recursion_budget :: nat

record xml_exporter =
  build_etree :: "node list \<Rightarrow> bool \<Rightarrow> error option"
  write_xml :: "string \<Rightarrow> error option"

text \<open>
  The members of \<^verbatim>\<open>NodeXMLExporter\<close> that the methods read and write. Python
  dictionaries keep insertion order, so \<^verbatim>\<open>self.namespaces\<close> is an association list.
\<close>

record exporter =
  nodes :: "node list"
  namespaces :: "(int \<times> string) list"
  visited :: "node list"

definition init :: exporter where
  "init = \<lparr>nodes = [], namespaces = [], visited = []\<rparr>"

section \<open>Traversal\<close>

text \<open>
  A \<^verbatim>\<open>for\<close> loop whose body may raise and may call a function that does not return:
  the body maps the loop state to \<open>None\<close> (no return), \<open>Some (Inl e)\<close> (raised) or
  \<open>Some (Inr s)\<close> (next state); the first exception leaves the loop.
\<close>

fun for_each ::
  "('a \<Rightarrow> 's \<Rightarrow> (error + 's) option) \<Rightarrow> 'a list \<Rightarrow> 's \<Rightarrow> (error + 's) option" where
  "for_each body [] s = Some (Inr s)"
| "for_each body (x # xs) s =
     Option.bind (body x s)
       (\<lambda>r. case r of Inl e \<Rightarrow> Some (Inl e) | Inr s' \<Rightarrow> for_each body xs s')"

lemma for_each_mono [partial_function_mono]:
  assumes "\<And>x s. mono_option (\<lambda>f. B f x s)"
  shows "mono_option (\<lambda>f. for_each (B f) xs s)"
proof (induction xs arbitrary: s)
  case Nil
  show ?case by (simp add: option.const_mono)
next
  case (Cons x xs)
  have "mono_option (\<lambda>f. Option.bind (B f x s)
          (\<lambda>r. case r of Inl e \<Rightarrow> Some (Inl e) | Inr s' \<Rightarrow> for_each (B f) xs s'))"
  proof (rule bind_mono [OF assms])
    fix r
    show "mono_option (\<lambda>f. case r of Inl e \<Rightarrow> Some (Inl e) | Inr s' \<Rightarrow> for_each (B f) xs s')"
      by (cases r) (simp_all add: option.const_mono Cons.IH)
  qed
  then show ?case by simp
qed

text \<open>
  \<^verbatim>\<open>iterater_over_child_nodes\<close>: the node is appended to \<^verbatim>\<open>self.nodes\<close> first, then
  its hierarchical children are browsed (a remote call that may raise), and each child
  that is not yet in \<^verbatim>\<open>self.nodes\<close> is visited recursively. The argument \<open>acc\<close> is
  \<^verbatim>\<open>self.nodes\<close> at the call; the result is \<^verbatim>\<open>self.nodes\<close> at the return and
  \<open>Inl e\<close> when \<open>e\<close> was raised. An exception is caught nowhere on the way: it leaves
  \<^verbatim>\<open>import_nodes\<close> and \<^verbatim>\<open>main\<close>, and the inventory reached so far is not used.

  The coroutine awaits itself for each child, one interpreter frame on top of the
  other and no work stack, so the depth of the nesting is bounded by the recursion
  limit. The argument \<open>frames\<close> is the number of nested visits that still fit, this
  one included: with none left the visit ends with \<^verbatim>\<open>RecursionError\<close>, and the
  children are visited with one less. \<open>None\<close> would be a visit that never returns.
\<close>

partial_function (option) iterater_over_child_nodes ::
  "session \<Rightarrow> nat \<Rightarrow> node \<Rightarrow> node list \<Rightarrow> (error + node list) option" where
  "iterater_over_child_nodes client frames nd acc =
     (if frames = 0 then Some (Inl RecursionError)
      else
        (case get_children client nd of
           Inl e \<Rightarrow> Some (Inl e)
         | Inr children \<Rightarrow>
             for_each
               (\<lambda>child acc'.
                  if child \<notin> set acc'
                  then iterater_over_child_nodes client (frames - 1) child acc'
                  else Some (Inr acc'))
               children (acc @ [nd])))"

text \<open>
  The body of the loop over the children, under a name; \<open>frames\<close> is what is left
  for the visit of a child.
\<close>

definition visit_child ::
  "session \<Rightarrow> nat \<Rightarrow> node \<Rightarrow> node list \<Rightarrow> (error + node list) option" where
  "visit_child client frames child acc =
     (if child \<notin> set acc then iterater_over_child_nodes client frames child acc
      else Some (Inr acc))"

text \<open>\<^verbatim>\<open>start_node_browse\<close>: the traversal from the root, on the exporter's state.\<close>

definition start_node_browse :: "session \<Rightarrow> node \<Rightarrow> exporter \<Rightarrow> (error + exporter) option" where
  "start_node_browse client rootnode s =
     (case iterater_over_child_nodes client (recursion_budget client) rootnode (nodes s) of
        None \<Rightarrow> None
      | Some (Inl e) \<Rightarrow> Some (Inl e)
      | Some (Inr acc) \<Rightarrow> Some (Inr (s\<lparr>nodes := acc\<rparr>)))"





section \<open>Namespace index\<close>

text \<open>
  The loop of \<^verbatim>\<open>import_nodes\<close> that fills \<^verbatim>\<open>self.namespaces\<close>: one lookup of the
  index per namespace URI. It gives the dictionary reached and the exception that
  stopped the loop, if one did.
\<close>

fun namespace_loop ::
  "session \<Rightarrow> string list \<Rightarrow> (int \<times> string) list \<Rightarrow> (int \<times> string) list \<times> error option" where
  "namespace_loop client [] nsp = (nsp, None)"
| "namespace_loop client (ns # rest) nsp =
     (case get_namespace_index client ns of
        Inl e \<Rightarrow> (nsp, Some e)
      | Inr i \<Rightarrow> namespace_loop client rest (AList.update i ns nsp))"

section \<open>Connecting and collecting\<close>

text \<open>
  \<^verbatim>\<open>import_nodes\<close>. When \<^verbatim>\<open>connect\<close> raises, three errors are logged and
  \<^verbatim>\<open>sys.exit()\<close> is called with no argument. The result is the log and how the method
  ended, with the exporter's state when it returned; \<open>None\<close> would be a traversal
  that never returns. \<^verbatim>\<open>set_user\<close> and \<^verbatim>\<open>set_password\<close> only store their argument and are
  left out.
\<close>

definition import_nodes ::
  "session \<Rightarrow> string \<Rightarrow> bool \<Rightarrow> exporter \<Rightarrow> (log_record list \<times> exporter outcome) option" where
  "import_nodes client server_url security s =
     (case (if security then set_security client else None) of
        Some e \<Rightarrow> Some ([], Raised e)
      | None \<Rightarrow>
          (case connect client of
             Some e \<Rightarrow>
               Some ([Log ERROR ''No connection established'' [AExc e],
                      Log ERROR ''%s'' [AExc e],
                      Log ERROR ''Exiting ...'' []],
                     SystemExit None)
           | None \<Rightarrow>
               (let lg = [Log INFO ''Client connected to %s'' [AStr server_url]] in
                case get_namespace_array client of
                  Inl e \<Rightarrow> Some (lg, Raised e)
                | Inr uris \<Rightarrow>
                    (case namespace_loop client uris (namespaces s) of
                       (nsp, Some e) \<Rightarrow> Some (lg, Raised e)
                     | (nsp, None) \<Rightarrow>
                         (let root = get_root_node client;
                              lg' = lg @ [Log INFO
                                ''Starting to collect nodes. This may take some time ...'' []]
                          in case start_node_browse client root (s\<lparr>namespaces := nsp\<rparr>) of
                               None \<Rightarrow> None
                             | Some (Inl e) \<Rightarrow> Some (lg', Raised e)
                             | Some (Inr s') \<Rightarrow>
                                 Some (lg' @ [Log INFO ''All nodes collected'' []],
                                       Returned s'))))))"

section \<open>Statistics\<close>

text \<open>
  \<^verbatim>\<open>typecounts_per_namespace\<close> is a dictionary of dictionaries, kept in insertion
  order. The body of the \<^verbatim>\<open>try\<close> for a node of namespace \<open>ns\<close> whose class read
  answered \<open>node_class\<close>: a namespace not seen yet gets an empty inner dictionary, then
  the class gets the count 1 or its count is incremented.
\<close>

type_synonym typecounts = "(int \<times> (string \<times> nat) list) list"

definition count_class :: "int \<Rightarrow> string \<Rightarrow> typecounts \<Rightarrow> typecounts" where
  "count_class ns node_class tc =
     (let tc' = (if ns \<notin> fst ` set tc then AList.update ns [] tc else tc);
          inner = (case map_of tc' ns of None \<Rightarrow> [] | Some d \<Rightarrow> d)
      in AList.update ns
           (case map_of inner node_class of
              None \<Rightarrow> AList.update node_class 1 inner
            | Some k \<Rightarrow> AList.update node_class (k + 1) inner)
           tc')"

text \<open>
  One round of the first loop of \<^verbatim>\<open>statistics\<close>: the class read of the node at
  \<open>idx\<close> is counted, or its exception is caught and logged.
\<close>

definition count_node ::
  "session \<Rightarrow> node \<Rightarrow> typecounts \<times> log_record list \<Rightarrow> typecounts \<times> log_record list" where
  "count_node client nd st =
     (case read_node_class client nd of
        Inr node_class \<Rightarrow>
          (count_class (NamespaceIndex (nodeid nd)) node_class (fst st), snd st)
      | Inl e \<Rightarrow>
          (fst st, snd st @ [Log ERROR ''some error with %s: %s'' [ANode nd, AExc e]]))"

definition count_loop :: "session \<Rightarrow> node list \<Rightarrow> typecounts \<times> log_record list" where
  "count_loop client nds =
     (let nodecount = length nds
      in fold (\<lambda>idx. count_node client (nds ! idx)) [0..<nodecount] ([], []))"

text \<open>
  The second loop: for each namespace of the table, in insertion order, a line with
  its URI, read from \<^verbatim>\<open>self.namespaces\<close> (a \<^verbatim>\<open>KeyError\<close> when the index is not a key),
  then a line for each class. It gives the lines logged and the exception that stopped
  the loop, if one did.
\<close>

fun report_loop ::
  "(int \<times> string) list \<Rightarrow> typecounts \<Rightarrow> log_record list \<times> error option" where
  "report_loop nsp [] = ([], None)"
| "report_loop nsp ((ns, types) # rest) =
     (case map_of nsp ns of
        None \<Rightarrow> ([], Some (KeyError ns))
      | Some uri \<Rightarrow>
          (let (lg, r) = report_loop nsp rest
           in (Log INFO ''NS%d (%s)'' [AInt ns, AStr uri]
                 # map (\<lambda>(type_info, c). Log INFO ''%s: %d'' [AStr type_info, AInt (int c)]) types
                 @ lg,
               r)))"

definition statistics :: "session \<Rightarrow> exporter \<Rightarrow> exporter \<times> log_record list \<times> unit outcome" where
  "statistics client s =
     (let (typecounts_per_namespace, errs) = count_loop client (nodes s);
          lg = Log INFO ''Calculating statistics'' [] # errs;
          (lines, r) = report_loop (namespaces s) typecounts_per_namespace
      in case r of
           Some e \<Rightarrow> (s, lg @ lines, Raised e)
         | None \<Rightarrow>
             (s, lg @ lines @ [Log INFO ''TOTAL in namespace: %d'' [AInt (int (length (nodes s)))]],
              Returned ()))"

text \<open>
  What the claims about \<^verbatim>\<open>statistics\<close> speak of: whether the class read of a node
  answers, the error records of the reads that do not, the sum of all counts of a
  table, and the count that a report line for a class carries.
\<close>

definition read_ok :: "session \<Rightarrow> node \<Rightarrow> bool" where
  "read_ok client nd = (case read_node_class client nd of Inl e \<Rightarrow> False | Inr c \<Rightarrow> True)"

definition error_lines :: "session \<Rightarrow> node list \<Rightarrow> log_record list" where
  "error_lines client nds =
     concat (map (\<lambda>nd. case read_node_class client nd of
                          Inl e \<Rightarrow> [Log ERROR ''some error with %s: %s'' [ANode nd, AExc e]]
                        | Inr c \<Rightarrow> []) nds)"

definition table_total :: "typecounts \<Rightarrow> nat" where
  "table_total tc = (\<Sum>(ns, types) \<leftarrow> tc. \<Sum>(type_info, c) \<leftarrow> types. c)"

definition line_count :: "log_record \<Rightarrow> int" where
  "line_count r =
     (case r of
        Log lv t [AStr type_info, AInt c] \<Rightarrow> if lv = INFO \<and> t = ''%s: %d'' then c else 0
      | _ \<Rightarrow> 0)"

section \<open>Export\<close>

text \<open>
  The node list that \<^verbatim>\<open>export_xml\<close> hands to the serializer. \<^verbatim>\<open>if namespaces:\<close>
  tests the truth value of the argument: \<^verbatim>\<open>None\<close> (no filter given) and the empty
  list are both false.
\<close>

definition export_xml_nodes :: "int list option \<Rightarrow> node list \<Rightarrow> node list" where
  "export_xml_nodes namespaces_arg nds =
     (case namespaces_arg of
        Some F \<Rightarrow>
          if F \<noteq> [] then [nd \<leftarrow> nds. NamespaceIndex (nodeid nd) \<in> set F] else nds
      | None \<Rightarrow> nds)"

definition export_xml ::
  "xml_exporter \<Rightarrow> int list option \<Rightarrow> string \<Rightarrow> bool \<Rightarrow> exporter
     \<Rightarrow> exporter \<times> log_record list \<times> unit outcome" where
  "export_xml exp namespaces_arg output_file export_values s =
     (let nds = export_xml_nodes namespaces_arg (nodes s);
          lg = (case namespaces_arg of
                  Some F \<Rightarrow> if F \<noteq> [] then [Log INFO ''Export only NS %s'' [AInts F]] else []
                | None \<Rightarrow> [])
               @ [Log INFO ''Export nodes to %s'' [AStr output_file],
                  Log INFO ''Export node values: %s'' [ABool export_values]]
      in case build_etree exp nds export_values of
           Some e \<Rightarrow> (s, lg, Raised e)
         | None \<Rightarrow>
             (case write_xml exp output_file of
                Some e \<Rightarrow> (s, lg, Raised e)
              | None \<Rightarrow> (s, lg @ [Log INFO ''Export finished'' []], Returned ())))"

section \<open>The program\<close>

record args =
  serverUrl :: string
  arg_namespaces :: "int list option"
  outputFile :: string
  arg_security :: bool
  arg_export_values :: bool

text \<open>
  \<^verbatim>\<open>main\<close>: collect, report, export, disconnect. An exception or a \<^verbatim>\<open>SystemExit\<close>
  of a stage leaves \<^verbatim>\<open>main\<close> at once.
\<close>

definition main :: "session \<Rightarrow> xml_exporter \<Rightarrow> args \<Rightarrow> (log_record list \<times> unit outcome) option" where
  "main client exp a =
     (case import_nodes client (serverUrl a) (arg_security a) init of
        None \<Rightarrow> None
      | Some (lg1, Raised e) \<Rightarrow> Some (lg1, Raised e)
      | Some (lg1, SystemExit c) \<Rightarrow> Some (lg1, SystemExit c)
      | Some (lg1, Returned s1) \<Rightarrow>
          (case statistics client s1 of
             (s2, lg2, Raised e) \<Rightarrow> Some (lg1 @ lg2, Raised e)
           | (s2, lg2, SystemExit c) \<Rightarrow> Some (lg1 @ lg2, SystemExit c)
           | (s2, lg2, Returned u) \<Rightarrow>
               (case export_xml exp (arg_namespaces a) (outputFile a) (arg_export_values a) s2 of
                  (s3, lg3, Raised e) \<Rightarrow> Some (lg1 @ lg2 @ lg3, Raised e)
                | (s3, lg3, SystemExit c) \<Rightarrow> Some (lg1 @ lg2 @ lg3, SystemExit c)
                | (s3, lg3, Returned u') \<Rightarrow>
                    (case disconnect client of
                       Some e \<Rightarrow> Some (lg1 @ lg2 @ lg3, Raised e)
                     | None \<Rightarrow> Some (lg1 @ lg2 @ lg3, Returned ())))))"

text \<open>
  The exit status of the Python process: 0 when \<^verbatim>\<open>main\<close> returns, 1 when an
  exception is not caught, and for \<^verbatim>\<open>SystemExit\<close> its argument, where \<^verbatim>\<open>None\<close>
  counts as 0.
\<close>

fun exit_status :: "unit outcome \<Rightarrow> int" where
  "exit_status (Returned u) = 0"
| "exit_status (Raised e) = 1"
| "exit_status (SystemExit None) = 0"
| "exit_status (SystemExit (Some k)) = k"

section \<open>An example address space\<close>

text \<open>
  Four nodes: the root has the children \<open>A\<close> and \<open>B\<close>; \<open>A\<close> refers to \<open>B\<close> and back to
  the root; \<open>B\<close> refers to \<open>C\<close> and back to \<open>A\<close>. So \<open>B\<close> is reached along two paths
  and every node but \<open>C\<close> lies on a cycle. The class read of \<open>B\<close> fails.
\<close>

definition mk_node :: "int \<Rightarrow> int \<Rightarrow> node" where
  "mk_node ns i = \<lparr>nodeid = \<lparr>NamespaceIndex = ns, Identifier = NumericId i\<rparr>\<rparr>"

definition Root :: node where
  "Root = mk_node 0 84"
definition A :: node where
  "A = mk_node 2 1"
definition B :: node where
  "B = mk_node 2 2"
definition C :: node where
  "C = mk_node 3 1"

definition ex_children :: "node \<Rightarrow> error + node list" where
  "ex_children n =
     (if n = Root then Inr [A, B]
      else if n = A then Inr [B, Root]
      else if n = B then Inr [C, A]
      else Inr [])"

definition ex_class :: "node \<Rightarrow> error + string" where
  "ex_class n =
     (if n = Root then Inr ''NodeClass.Object''
      else if n = A then Inr ''NodeClass.Object''
      else if n = B then Inl (RemoteException ''BadNodeIdUnknown'')
      else Inr ''NodeClass.Variable'')"

definition ex_client :: session where
  "ex_client = \<lparr>set_security = None, connect = None,
     get_namespace_array = Inr [''http://opcfoundation.org/UA/'', ''urn:a'', ''urn:b'', ''urn:c''],
     get_namespace_index = (\<lambda>u. if u = ''http://opcfoundation.org/UA/'' then Inr 0
        else if u = ''urn:a'' then Inr 1 else if u = ''urn:b'' then Inr 2
        else if u = ''urn:c'' then Inr 3 else Inl (RemoteException ''BadNoMatch'')),
     get_root_node = Root, get_children = ex_children, read_node_class = ex_class,
     disconnect = None, recursion_budget = 900\<rparr>"

text \<open>An inventory of five nodes, of the namespaces 0, 0, 2, 2 and 3.\<close>

definition ex_inventory :: "node list" where
  "ex_inventory = [mk_node 0 84, mk_node 0 85, mk_node 2 1, mk_node 2 2, mk_node 3 1]"

text \<open>The exporter after the traversal of the example, with its namespace index.\<close>

definition ex_state :: exporter where
  "ex_state = \<lparr>nodes = [Root, A, B, C],
     namespaces = [(0, ''http://opcfoundation.org/UA/''), (1, ''urn:a''), (2, ''urn:b''),
                   (3, ''urn:c'')],
     visited = []\<rparr>"

text \<open>
  A ring of 1001 nodes of namespace 0, numbered from 0 to 1000: each node has the next
  one as its only child and the last refers back to the first. The budget is 974
  nested visits, one that a run can have under the default recursion limit.
\<close>

definition ring_node :: "nat \<Rightarrow> node" where
  "ring_node i = mk_node 0 (int i)"



section \<open>The traversal on finite graphs\<close>

lemma iterater_unfold [code]:
  "iterater_over_child_nodes client frames nd acc =
     (if frames = 0 then Some (Inl RecursionError)
      else
        (case get_children client nd of
           Inl e \<Rightarrow> Some (Inl e)
         | Inr cs \<Rightarrow> for_each (visit_child client (frames - 1)) cs (acc @ [nd])))"
proof -
  have h: "visit_child client (frames - 1) =
      (\<lambda>child acc'. if child \<notin> set acc'
                     then iterater_over_child_nodes client (frames - 1) child acc'
                     else Some (Inr acc'))"
    by (rule ext, rule ext) (simp add: visit_child_def)
  show ?thesis
    unfolding h by (rule iterater_over_child_nodes.simps)
qed










text \<open>
  The traversal always ends, with an inventory or with an exception: the frames bound
  the nesting and each loop runs over a list.
\<close>

lemma for_each_Inr_Cons:
  assumes "for_each body (x # xs) s = Some (Inr s')"
  obtains s1 where "body x s = Some (Inr s1)" "for_each body xs s1 = Some (Inr s')"
proof (cases "body x s")
  case None
  with assms show ?thesis by simp
next
  case (Some r)
  show ?thesis
  proof (cases r)
    case (Inl e)
    with Some assms show ?thesis by simp
  next
    case (Inr s1)
    with Some assms that show ?thesis by simp
  qed
qed






section \<open>The example and a deep ring\<close>

lemma ex_nodes_neq:
  "Root \<noteq> A" "Root \<noteq> B" "Root \<noteq> C" "A \<noteq> B" "A \<noteq> C" "B \<noteq> C"
  "A \<noteq> Root" "B \<noteq> Root" "C \<noteq> Root" "B \<noteq> A" "C \<noteq> A" "C \<noteq> B"
  by (simp_all add: Root_def A_def B_def C_def mk_node_def)

lemma ex_get_children:
  "get_children ex_client Root = Inr [A, B]"
  "get_children ex_client A = Inr [B, Root]"
  "get_children ex_client B = Inr [C, A]"
  "get_children ex_client C = Inr []"
  by (simp_all add: ex_client_def ex_children_def ex_nodes_neq)






text \<open>
  On the ring a visit of node \<open>i\<close> that has the nodes before \<open>i\<close> in the inventory and
  not enough frames for the rest of the ring ends with \<^verbatim>\<open>RecursionError\<close>.
\<close>

lemma ring_node_eq [simp]: "ring_node i = ring_node j \<longleftrightarrow> i = j"
  by (simp add: ring_node_def mk_node_def)










section \<open>Every reachable node exactly once\<close>




section \<open>Cycles\<close>




section \<open>The membership test of the traversal\<close>

lemma for_each_extends:
  assumes body: "\<And>x s s'. body x s = Some (Inr s') \<Longrightarrow> \<exists>new. s' = s @ new"
  shows "for_each body xs s = Some (Inr s') \<Longrightarrow> \<exists>new. s' = s @ new"
proof (induction xs arbitrary: s)
  case Nil
  then show ?case by simp
next
  case (Cons x xs)
  from Cons.prems obtain s1 where s1: "body x s = Some (Inr s1)"
    and rest: "for_each body xs s1 = Some (Inr s')"
    by (rule for_each_Inr_Cons)
  from body [OF s1] Cons.IH [OF rest] show ?case by auto
qed

lemma iterater_appends:
  assumes "iterater_over_child_nodes client frames nd acc = Some y"
  shows "\<forall>res. y = Inr res \<longrightarrow> (\<exists>new. res = acc @ nd # new)"
proof (rule iterater_over_child_nodes.raw_induct
    [where P = "\<lambda>client frames nd acc y. \<forall>res. y = Inr res \<longrightarrow> (\<exists>new. res = acc @ nd # new)",
     OF _ assms], goal_cases)
  case (1 f client frames nd acc y)
  show ?case
  proof (intro allI impI)
    fix res assume y: "y = Inr res"
    from 1(2) y obtain cs where cs: "get_children client nd = Inr cs"
      and run: "for_each (\<lambda>child acc'. if child \<notin> set acc' then f client (frames - 1) child acc'
                  else Some (Inr acc')) cs (acc @ [nd]) = Some (Inr res)"
      by (auto split: if_splits sum.splits)
    have "\<exists>new. res = (acc @ [nd]) @ new"
    proof (rule for_each_extends [OF _ run])
      fix x s s'
      assume "(if x \<notin> set s then f client (frames - 1) x s else Some (Inr s)) = Some (Inr s')"
      then show "\<exists>new. s' = s @ new"
        using 1(1) [of client "frames - 1" x s "Inr s'"] by (auto split: if_splits)
    qed
    then show "\<exists>new. res = acc @ nd # new" by simp
  qed
qed

text \<open>
  \<^verbatim>\<open>iterater_over_child_nodes\<close> has no test of its own: called on a node that is in
  the inventory already, it appends the node again. Here \<open>C\<close>, which has no children,
  is visited with the inventory \<open>[Root, C]\<close>.
\<close>

theorem visit_appends_unguarded_counterexample:
  "C \<in> set [Root, C] \<and>
   iterater_over_child_nodes ex_client 900 C [Root, C] = Some (Inr [Root, C, C])"
  by (simp add: iterater_unfold ex_get_children)

text \<open>
  Claim C4, amended. The test is made by the caller, in the loop over the children: a
  child whose node id is in the inventory already is not visited, the inventory stays
  as it is and the loop goes on with the next child. The visit itself, whenever it
  returns, has appended its node to the inventory it was called with.
\<close>

theorem guard_at_call_site:
  "(child \<in> set acc \<longrightarrow>
      visit_child client frames child acc = Some (Inr acc)
      \<and> for_each (visit_child client frames) (child # rest) acc
          = for_each (visit_child client frames) rest acc)
   \<and> (iterater_over_child_nodes client frames' nd acc' = Some (Inr res) \<longrightarrow>
        (\<exists>new. res = acc' @ nd # new))"
  using iterater_appends [of client frames' nd acc' "Inr res"]
  by (simp add: visit_child_def)

theorem guard_at_call_site_witness:
  "Root \<in> set [Root, A] \<and> visit_child ex_client 899 Root [Root, A] = Some (Inr [Root, A])
   \<and> for_each (visit_child ex_client 899) [Root] [Root, A] = Some (Inr [Root, A])
   \<and> iterater_over_child_nodes ex_client 900 C [Root, C] = Some (Inr [Root, C, C])
   \<and> (\<exists>new. [Root, C, C] = [Root, C] @ C # new)"
proof -
  have m: "Root \<in> set [Root, A]" by simp
  have r: "iterater_over_child_nodes ex_client 900 C [Root, C] = Some (Inr [Root, C, C])"
    by (simp add: iterater_unfold ex_get_children)
  from guard_at_call_site [of Root "[Root, A]" ex_client 899 "[]" 900 C "[Root, C]" "[Root, C, C]"] m r
  show ?thesis by simp
qed

section \<open>Export selection\<close>

text \<open>
  With the empty list as filter the whole inventory is selected, though no node has
  its namespace index in the empty list.
\<close>

theorem filter_empty_counterexample:
  "export_xml_nodes (Some []) ex_inventory = ex_inventory
   \<and> [nd \<leftarrow> ex_inventory. NamespaceIndex (nodeid nd) \<in> set []] = []
   \<and> ex_inventory \<noteq> []"
  by (simp add: export_xml_nodes_def ex_inventory_def)

text \<open>
  Claim C5, amended. For every inventory and every filter argument, selecting twice
  is selecting once, and the selection is a subsequence of the inventory, in the same
  order; for a filter \<open>F\<close> that is not empty the selection holds exactly the nodes
  whose namespace index is in \<open>F\<close>.
\<close>

theorem export_filter_idempotent_subseq:
  "export_xml_nodes f (export_xml_nodes f nds) = export_xml_nodes f nds
   \<and> subseq (export_xml_nodes f nds) nds
   \<and> (F \<noteq> [] \<longrightarrow>
        export_xml_nodes (Some F) nds = [nd \<leftarrow> nds. NamespaceIndex (nodeid nd) \<in> set F])"
  by (simp add: export_xml_nodes_def split: option.split)

theorem export_filter_idempotent_subseq_witness:
  "[2] \<noteq> [] \<and> export_xml_nodes (Some [2]) ex_inventory = [mk_node 2 1, mk_node 2 2]
   \<and> export_xml_nodes (Some [2]) [mk_node 2 1, mk_node 2 2] = [mk_node 2 1, mk_node 2 2]
   \<and> subseq [mk_node 2 1, mk_node 2 2] ex_inventory"
proof -
  have e: "[nd \<leftarrow> ex_inventory. NamespaceIndex (nodeid nd) \<in> set [2]] = [mk_node 2 1, mk_node 2 2]"
    by (simp add: ex_inventory_def mk_node_def)
  note t = export_filter_idempotent_subseq [of "Some [2]" ex_inventory "[2]"]
  have r: "export_xml_nodes (Some [2]) ex_inventory = [mk_node 2 1, mk_node 2 2]"
    using t e by simp
  have ne: "[2::int] \<noteq> []" by simp
  from t [unfolded r] have
    "export_xml_nodes (Some [2]) [mk_node 2 1, mk_node 2 2] = [mk_node 2 1, mk_node 2 2]
     \<and> subseq [mk_node 2 1, mk_node 2 2] ex_inventory"
    by blast
  with r ne show ?thesis by blast
qed

text \<open>
  Claim C6. When no namespace filter is given (\<^verbatim>\<open>namespaces=None\<close>), the list handed
  to the serializer is the inventory itself: the same nodes in the same order.
\<close>

theorem export_all_unchanged:
  "export_xml_nodes None nds = nds"
  by (simp add: export_xml_nodes_def)

text \<open>
  Claim C10. An empty filter list is not told from no filter: the whole inventory is
  selected, and \<^verbatim>\<open>export_xml\<close> does and logs the same in both cases. What it does is
  written out: the serializer is given the whole inventory \<open>nodes s\<close>, nothing is
  logged about a filter, and the outcome is the serializer's.
\<close>

theorem export_empty_filter_is_all:
  "export_xml_nodes (Some []) nds = nds
   \<and> export_xml_nodes (Some []) nds = export_xml_nodes None nds
   \<and> export_xml exp (Some []) output_file export_values s
       = export_xml exp None output_file export_values s
   \<and> export_xml exp (Some []) output_file export_values s =
       (case build_etree exp (nodes s) export_values of
          Some e \<Rightarrow>
            (s,
             [Log INFO ''Export nodes to %s'' [AStr output_file],
              Log INFO ''Export node values: %s'' [ABool export_values]],
             Raised e)
        | None \<Rightarrow>
            (case write_xml exp output_file of
               Some e \<Rightarrow>
                 (s,
                  [Log INFO ''Export nodes to %s'' [AStr output_file],
                   Log INFO ''Export node values: %s'' [ABool export_values]],
                  Raised e)
             | None \<Rightarrow>
                 (s,
                  [Log INFO ''Export nodes to %s'' [AStr output_file],
                   Log INFO ''Export node values: %s'' [ABool export_values],
                   Log INFO ''Export finished'' []],
                  Returned ())))"
  by (simp add: export_xml_nodes_def export_xml_def split: option.split)

section \<open>The inventory after the traversal\<close>

text \<open>
  Claim C9. Neither \<^verbatim>\<open>statistics\<close> nor \<^verbatim>\<open>export_xml\<close> writes a member of the
  exporter: however they end, the state after is the state before, so the inventory
  has the same nodes in the same order.
\<close>

theorem inventory_read_only:
  "fst (statistics client s) = s
   \<and> nodes (fst (statistics client s)) = nodes s
   \<and> fst (export_xml exp namespaces_arg output_file export_values s) = s
   \<and> nodes (fst (export_xml exp namespaces_arg output_file export_values s)) = nodes s"
  by (simp add: statistics_def export_xml_def Let_def split: prod.split option.split)

section \<open>Statistics with failing reads\<close>

lemma fold_index: "fold (\<lambda>idx. f (xs ! idx)) [0..<length xs] a = fold f xs a"
proof -
  have "fold f (map ((!) xs) [0..<length xs]) a = fold (f \<circ> (!) xs) [0..<length xs] a"
    by (simp add: fold_map)
  then show ?thesis by (simp add: map_nth comp_def)
qed

lemma sum_update:
  fixes f :: "'v \<Rightarrow> nat"
  shows "(\<Sum>(k', x) \<leftarrow> AList.update k v al. f x)
           + (case map_of al k of None \<Rightarrow> 0 | Some old \<Rightarrow> f old)
         = (\<Sum>(k', x) \<leftarrow> al. f x) + f v"
  by (induction al) auto

lemma inner_total:
  "(\<Sum>(t, c) \<leftarrow> (case map_of inner cls of
       None \<Rightarrow> AList.update cls 1 inner
     | Some k \<Rightarrow> AList.update cls (k + 1) inner). c)
   = (\<Sum>(t, c) \<leftarrow> inner. c) + (1::nat)"
proof (cases "map_of inner cls")
  case None
  with sum_update [where f = "\<lambda>c. c" and k = cls and v = 1 and al = inner]
  show ?thesis by simp
next
  case (Some k)
  with sum_update [where f = "\<lambda>c. c" and k = cls and v = "k + 1" and al = inner]
  show ?thesis by simp
qed

lemma count_class_total: "table_total (count_class ns cls tc) = table_total tc + 1"
proof (cases "ns \<in> fst ` set tc")
  case True
  then obtain d where d: "map_of tc ns = Some d"
    by (metis domD dom_map_of_conv_image_fst)
  let ?d' = "case map_of d cls of None \<Rightarrow> AList.update cls 1 d
             | Some k \<Rightarrow> AList.update cls (k + 1) d"
  from sum_update [where f = "\<lambda>types. \<Sum>(t, c) \<leftarrow> types. c" and k = ns and v = ?d' and al = tc]
    d inner_total [where inner = d and cls = cls]
  have "table_total (AList.update ns ?d' tc) = table_total tc + 1"
    by (simp add: table_total_def)
  then show ?thesis using True d by (simp add: count_class_def)
next
  case False
  then have n: "map_of tc ns = None" by (simp add: map_of_eq_None_iff)
  let ?tc' = "AList.update ns [] tc"
  have t': "table_total ?tc' = table_total tc"
    using sum_update [where f = "\<lambda>types. \<Sum>(t, c) \<leftarrow> types. c" and k = ns and v = "[]" and al = tc] n
    by (simp add: table_total_def)
  have m: "map_of ?tc' ns = Some []" by (simp add: update_conv')
  from sum_update [where f = "\<lambda>types. \<Sum>(t, c) \<leftarrow> types. c" and k = ns
      and v = "AList.update cls 1 []" and al = ?tc'] m
  have "table_total (AList.update ns (AList.update cls 1 []) ?tc') = table_total ?tc' + 1"
    by (simp add: table_total_def)
  then show ?thesis using False m t' by (simp add: count_class_def)
qed


lemma count_class_keys:
  "map fst (count_class ns cls tc) =
     (if ns \<in> set (map fst tc) then map fst tc else map fst tc @ [ns])"
  by (simp add: count_class_def update_keys dom_update Let_def)

lemma count_loop_fold: "count_loop client nds = fold (count_node client) nds ([], [])"
  by (simp add: count_loop_def fold_index)

lemma fold_count_node:
  "table_total (fst (fold (count_node client) nds st))
     = table_total (fst st) + length [nd \<leftarrow> nds. read_ok client nd]
   \<and> snd (fold (count_node client) nds st) = snd st @ error_lines client nds
   \<and> set (map fst (fst (fold (count_node client) nds st)))
     = set (map fst (fst st))
       \<union> (\<lambda>nd. NamespaceIndex (nodeid nd)) ` {nd \<in> set nds. read_ok client nd}"
proof (induction nds arbitrary: st)
  case Nil
  show ?case by (simp add: error_lines_def)
next
  case (Cons nd nds)
  show ?case
  proof (cases "read_node_class client nd")
    case (Inl e)
    then have step: "count_node client nd st
        = (fst st, snd st @ [Log ERROR ''some error with %s: %s'' [ANode nd, AExc e]])"
      by (simp add: count_node_def)
    from Inl have no: "\<not> read_ok client nd" by (simp add: read_ok_def)
    from Inl have el: "error_lines client (nd # nds)
        = Log ERROR ''some error with %s: %s'' [ANode nd, AExc e] # error_lines client nds"
      by (simp add: error_lines_def)
    have same: "{x \<in> set (nd # nds). read_ok client x} = {x \<in> set nds. read_ok client x}"
      using no by auto
    show ?thesis using Cons.IH [of "count_node client nd st"] no
      unfolding same by (simp add: step el)
  next
    case (Inr c)
    then have step: "count_node client nd st
        = (count_class (NamespaceIndex (nodeid nd)) c (fst st), snd st)"
      by (simp add: count_node_def)
    from Inr have ok: "read_ok client nd" by (simp add: read_ok_def)
    from Inr have el: "error_lines client (nd # nds) = error_lines client nds"
      by (simp add: error_lines_def)
    have keys: "set (map fst (count_class (NamespaceIndex (nodeid nd)) c (fst st)))
        = insert (NamespaceIndex (nodeid nd)) (set (map fst (fst st)))"
      by (auto simp: count_class_keys)
    have split: "{x \<in> set (nd # nds). read_ok client x}
        = insert nd {x \<in> set nds. read_ok client x}"
      using ok by auto
    show ?thesis using Cons.IH [of "count_node client nd st"] ok
      unfolding split by (simp add: step el count_class_total keys del: set_map)
  qed
qed

lemma type_lines_count:
  "(\<Sum>l \<leftarrow> map (\<lambda>(type_info, c). Log INFO ''%s: %d'' [AStr type_info, AInt (int c)]) types.
      line_count l)
   = int (\<Sum>(type_info, c) \<leftarrow> types. c)"
  by (induction types) (auto simp: line_count_def)

lemma report_loop_ok:
  assumes "set (map fst tc) \<subseteq> fst ` set nsp"
  shows "\<exists>lines. report_loop nsp tc = (lines, None)
      \<and> (\<Sum>l \<leftarrow> lines. line_count l) = int (table_total tc)"
  using assms
proof (induction tc)
  case Nil
  show ?case by (simp add: table_total_def)
next
  case (Cons p tc)
  obtain ns types where p: "p = (ns, types)" by (cases p)
  from Cons.prems p have "ns \<in> fst ` set nsp" by simp
  then obtain uri where uri: "map_of nsp ns = Some uri"
    by (metis domD dom_map_of_conv_image_fst)
  from Cons.IH Cons.prems obtain lines where
    lines: "report_loop nsp tc = (lines, None)"
      "(\<Sum>l \<leftarrow> lines. line_count l) = int (table_total tc)"
    by auto
  have nsline: "line_count (Log INFO ''NS%d (%s)'' [AInt ns, AStr uri]) = 0"
    by (simp add: line_count_def)
  have tt: "table_total ((ns, types) # tc) = (\<Sum>(type_info, c) \<leftarrow> types. c) + table_total tc"
    by (simp add: table_total_def)
  show ?case
    using lines uri nsline
    by (simp add: p tt type_lines_count del: map_map)
qed

lemma count_class_first:
  "count_class ns cls tc \<noteq> [] \<and>
   fst (hd (count_class ns cls tc)) = (if tc = [] then ns else fst (hd tc))"
proof -
  have ne: "count_class ns cls tc \<noteq> []"
    by (simp add: count_class_def Let_def)
  have "hd (map fst (count_class ns cls tc)) = (if tc = [] then ns else hd (map fst tc))"
    unfolding count_class_keys by (cases tc) auto
  with ne show ?thesis by (cases tc) (simp_all add: hd_map)
qed

lemma fold_count_node_first:
  "fst st \<noteq> [] \<Longrightarrow>
     fst (fold (count_node client) nds st) \<noteq> []
     \<and> fst (hd (fst (fold (count_node client) nds st))) = fst (hd (fst st))"
proof (induction nds arbitrary: st)
  case Nil
  then show ?case by simp
next
  case (Cons nd nds)
  have "fst (count_node client nd st) \<noteq> []
      \<and> fst (hd (fst (count_node client nd st))) = fst (hd (fst st))"
    using Cons.prems count_class_first [of "NamespaceIndex (nodeid nd)" _ "fst st"]
    by (simp add: count_node_def split: sum.split)
  with Cons.IH [of "count_node client nd st"] show ?case by simp
qed

lemma fold_count_node_empty:
  "fst st = [] \<Longrightarrow>
     (case List.find (read_ok client) nds of
        None \<Rightarrow> fst (fold (count_node client) nds st) = []
      | Some nd \<Rightarrow> fst (fold (count_node client) nds st) \<noteq> []
          \<and> fst (hd (fst (fold (count_node client) nds st))) = NamespaceIndex (nodeid nd))"
proof (induction nds arbitrary: st)
  case Nil
  then show ?case by simp
next
  case (Cons nd nds)
  show ?case
  proof (cases "read_node_class client nd")
    case (Inl e)
    then have "fst (count_node client nd st) = []" "\<not> read_ok client nd"
      using Cons.prems by (simp_all add: count_node_def read_ok_def)
    with Cons.IH [of "count_node client nd st"] show ?thesis
      by (simp split: option.splits)
  next
    case (Inr c)
    then have ok: "read_ok client nd" by (simp add: read_ok_def)
    have "fst (count_node client nd st) \<noteq> []
        \<and> fst (hd (fst (count_node client nd st))) = NamespaceIndex (nodeid nd)"
      using Inr Cons.prems count_class_first [of "NamespaceIndex (nodeid nd)" c "[]"]
      by (simp add: count_node_def)
    with fold_count_node_first [of "count_node client nd st" client nds] ok
    show ?thesis by simp
  qed
qed


lemma ex_read_node_class:
  "read_node_class ex_client Root = Inr ''NodeClass.Object''"
  "read_node_class ex_client A = Inr ''NodeClass.Object''"
  "read_node_class ex_client B = Inl (RemoteException ''BadNodeIdUnknown'')"
  "read_node_class ex_client C = Inr ''NodeClass.Variable''"
  by (simp_all add: ex_client_def ex_class_def ex_nodes_neq)

lemma ex_read_ok:
  "read_ok ex_client Root" "read_ok ex_client A" "\<not> read_ok ex_client B" "read_ok ex_client C"
  by (simp_all add: read_ok_def ex_read_node_class)

lemma ex_namespace_index:
  "NamespaceIndex (nodeid Root) = 0" "NamespaceIndex (nodeid A) = 2"
  "NamespaceIndex (nodeid B) = 2" "NamespaceIndex (nodeid C) = 3"
  by (simp_all add: Root_def A_def B_def C_def mk_node_def)

text \<open>
  Claim C3. A class read that fails is logged and skipped and the loop goes on: the
  counts of the table sum to the number of reads that answered, and there is one error
  record for each read that failed. When the namespace index has the namespace of every
  node whose read answered, \<^verbatim>\<open>statistics\<close> returns; its report lines for the classes
  carry counts of the same sum, and its last line gives the length of the whole
  inventory, the nodes whose read failed included.
\<close>

theorem statistics_tolerates_read_failures:
  "table_total (fst (count_loop client (nodes s))) = length [nd \<leftarrow> nodes s. read_ok client nd]
   \<and> snd (count_loop client (nodes s)) = error_lines client (nodes s)
   \<and> length (error_lines client (nodes s)) = length [nd \<leftarrow> nodes s. \<not> read_ok client nd]
   \<and> ((\<forall>nd\<in>set (nodes s). read_ok client nd \<longrightarrow>
            NamespaceIndex (nodeid nd) \<in> fst ` set (namespaces s)) \<longrightarrow>
        (\<exists>lines. statistics client s =
            (s,
             Log INFO ''Calculating statistics'' [] # error_lines client (nodes s) @ lines
               @ [Log INFO ''TOTAL in namespace: %d'' [AInt (int (length (nodes s)))]],
             Returned ())
          \<and> (\<Sum>l \<leftarrow> lines. line_count l) = int (length [nd \<leftarrow> nodes s. read_ok client nd])))"
proof -
  obtain tc errs where loop: "count_loop client (nodes s) = (tc, errs)"
    by (cases "count_loop client (nodes s)")
  note f = fold_count_node [of client "nodes s" "([], [])", folded count_loop_fold, unfolded loop]
  have total: "table_total tc = length [nd \<leftarrow> nodes s. read_ok client nd]"
    using f by (simp add: table_total_def)
  have errs: "errs = error_lines client (nodes s)" using f by simp
  have keys: "set (map fst tc)
      = (\<lambda>nd. NamespaceIndex (nodeid nd)) ` {nd \<in> set (nodes s). read_ok client nd}"
    using f by simp
  have len: "length (error_lines client nds) = length [nd \<leftarrow> nds. \<not> read_ok client nd]" for nds
    by (induction nds) (auto simp: error_lines_def read_ok_def split: sum.splits)
  have rep: "\<exists>lines. statistics client s =
            (s,
             Log INFO ''Calculating statistics'' [] # error_lines client (nodes s) @ lines
               @ [Log INFO ''TOTAL in namespace: %d'' [AInt (int (length (nodes s)))]],
             Returned ())
          \<and> (\<Sum>l \<leftarrow> lines. line_count l) = int (length [nd \<leftarrow> nodes s. read_ok client nd])"
    if h: "\<forall>nd\<in>set (nodes s). read_ok client nd \<longrightarrow>
            NamespaceIndex (nodeid nd) \<in> fst ` set (namespaces s)"
  proof -
    from h keys have "set (map fst tc) \<subseteq> fst ` set (namespaces s)" by auto
    from report_loop_ok [OF this] obtain lines where
      lines: "report_loop (namespaces s) tc = (lines, None)"
        "(\<Sum>l \<leftarrow> lines. line_count l) = int (table_total tc)"
      by blast
    have "statistics client s =
            (s,
             Log INFO ''Calculating statistics'' [] # error_lines client (nodes s) @ lines
               @ [Log INFO ''TOTAL in namespace: %d'' [AInt (int (length (nodes s)))]],
             Returned ())"
      by (simp add: statistics_def loop lines(1) errs)
    with lines(2) total show ?thesis by auto
  qed
  from total errs len [of "nodes s"] rep show ?thesis by (simp add: loop)
qed

theorem statistics_tolerates_read_failures_witness:
  "(\<exists>lines. statistics ex_client ex_state =
        (ex_state,
         Log INFO ''Calculating statistics'' []
           # Log ERROR ''some error with %s: %s'' [ANode B, AExc (RemoteException ''BadNodeIdUnknown'')]
           # lines @ [Log INFO ''TOTAL in namespace: %d'' [AInt 4]],
         Returned ())
      \<and> (\<Sum>l \<leftarrow> lines. line_count l) = 3)
   \<and> table_total (fst (count_loop ex_client (nodes ex_state))) = 3"
proof -
  have n: "nodes ex_state = [Root, A, B, C]" by (simp add: ex_state_def)
  have h: "\<forall>nd\<in>set (nodes ex_state). read_ok ex_client nd \<longrightarrow>
      NamespaceIndex (nodeid nd) \<in> fst ` set (namespaces ex_state)"
    by (simp add: n ex_namespace_index) (simp add: ex_state_def)
  have e: "error_lines ex_client [Root, A, B, C]
      = [Log ERROR ''some error with %s: %s'' [ANode B, AExc (RemoteException ''BadNodeIdUnknown'')]]"
    by (simp add: error_lines_def ex_read_node_class)
  have ok: "[nd \<leftarrow> [Root, A, B, C]. read_ok ex_client nd] = [Root, A, C]"
    by (simp add: ex_read_ok)
  from statistics_tolerates_read_failures [of ex_client ex_state] h
  show ?thesis unfolding n e ok by simp
qed

text \<open>
  With no namespace index and an empty inventory, as before \<^verbatim>\<open>import_nodes\<close>,
  \<^verbatim>\<open>statistics\<close> returns: it logs the total 0 and raises nothing.
\<close>

theorem statistics_empty_inventory_counterexample:
  "namespaces init = [] \<and>
   statistics ex_client init =
     (init,
      [Log INFO ''Calculating statistics'' [], Log INFO ''TOTAL in namespace: %d'' [AInt 0]],
      Returned ())"
  by (simp add: statistics_def count_loop_def init_def)

text \<open>
  Claim C7, amended. With an empty namespace index \<^verbatim>\<open>statistics\<close> fails exactly when
  some class read answers: then the first loop runs to its end and the report raises
  \<^verbatim>\<open>KeyError\<close> for the namespace of the first node whose read answered, before any
  report line. When no read answers (the empty inventory included) it returns and
  logs the total.
\<close>

theorem statistics_without_namespace_index:
  assumes "namespaces s = []"
  shows "statistics client s =
     (case List.find (read_ok client) (nodes s) of
        None \<Rightarrow>
          (s,
           Log INFO ''Calculating statistics'' [] # error_lines client (nodes s)
             @ [Log INFO ''TOTAL in namespace: %d'' [AInt (int (length (nodes s)))]],
           Returned ())
      | Some nd \<Rightarrow>
          (s,
           Log INFO ''Calculating statistics'' [] # error_lines client (nodes s),
           Raised (KeyError (NamespaceIndex (nodeid nd)))))"
proof -
  obtain tc errs where loop: "count_loop client (nodes s) = (tc, errs)"
    by (cases "count_loop client (nodes s)")
  note f = fold_count_node [of client "nodes s" "([], [])", folded count_loop_fold, unfolded loop]
  have errs: "errs = error_lines client (nodes s)" using f by simp
  note g = fold_count_node_empty [of "([], [])" client "nodes s", folded count_loop_fold,
      unfolded loop]
  show ?thesis
  proof (cases "List.find (read_ok client) (nodes s)")
    case None
    with g have "tc = []" by simp
    then show ?thesis
      by (simp add: statistics_def loop errs None assms)
  next
    case (Some nd)
    with g have tc: "tc \<noteq> []" "fst (hd tc) = NamespaceIndex (nodeid nd)" by simp_all
    then obtain types rest where "tc = (NamespaceIndex (nodeid nd), types) # rest"
      by (cases tc) auto
    then show ?thesis
      by (simp add: statistics_def loop errs Some assms)
  qed
qed

theorem statistics_without_namespace_index_witness:
  "namespaces (ex_state\<lparr>namespaces := []\<rparr>) = [] \<and>
   statistics ex_client (ex_state\<lparr>namespaces := []\<rparr>) =
     (ex_state\<lparr>namespaces := []\<rparr>,
      [Log INFO ''Calculating statistics'' [],
       Log ERROR ''some error with %s: %s'' [ANode B, AExc (RemoteException ''BadNodeIdUnknown'')]],
      Raised (KeyError 0))"
proof -
  have n: "nodes (ex_state\<lparr>namespaces := []\<rparr>) = [Root, A, B, C]" by (simp add: ex_state_def)
  have h: "namespaces (ex_state\<lparr>namespaces := []\<rparr>) = []" by simp
  have e: "error_lines ex_client [Root, A, B, C]
      = [Log ERROR ''some error with %s: %s'' [ANode B, AExc (RemoteException ''BadNodeIdUnknown'')]]"
    by (simp add: error_lines_def ex_read_node_class)
  from statistics_without_namespace_index [OF h, of ex_client] h
  show ?thesis unfolding n e by (simp add: ex_read_ok ex_namespace_index)
qed

section \<open>A failed connection\<close>

text \<open>
  Claim C8. When \<^verbatim>\<open>connect\<close> raises, the error is logged and the traversal is not
  started, but \<^verbatim>\<open>sys.exit()\<close> is called with no argument: the process ends with the
  exit status 0.
\<close>

theorem connect_failure_exit_status:
  "main (client\<lparr>set_security := None, connect := Some e\<rparr>) exp a =
     Some ([Log ERROR ''No connection established'' [AExc e],
            Log ERROR ''%s'' [AExc e],
            Log ERROR ''Exiting ...'' []],
           SystemExit None)
   \<and> exit_status (SystemExit None) = 0"
  by (simp add: main_def import_nodes_def)

end
